theory Spec2Isabelle
  imports Main "HOL-Library.Word"
begin

section \<open>The device state of \<^verbatim>\<open>src/main.cpp\<close>\<close>

text \<open>
  The program runs on FreeRTOS: \<^verbatim>\<open>setup\<close> and \<^verbatim>\<open>loop\<close> run in the Arduino loop task, and
  \<^verbatim>\<open>pollEndpoints\<close> creates one task per endpoint with \<^verbatim>\<open>xTaskCreate\<close>. The model keeps the
  globals of the file, the two LED pins, the statics of \<^verbatim>\<open>checkWiFiConnection\<close>, the tasks
  created so far, and a trace of what was executed, in order.

  The two counters are C \<^verbatim>\<open>int\<close>s. In every cycle they stay between 0 and the number of
  endpoints, so they are modelled as unbounded integers; \<^verbatim>\<open>millis()\<close> values are
  \<^verbatim>\<open>unsigned long\<close> (32 bits on the ESP32) and wrap around.
\<close>

datatype pin = BLUE_LED_PIN | RED_LED_PIN

datatype owner = LoopTask | HTTPTask nat

text \<open>The lines written to \<^verbatim>\<open>Serial\<close>, one constructor per line of output (the wording
  of a line is not modelled; the numbers it prints are).\<close>

datatype msg =
    Banner
  | Connecting_to_WiFi
  | Dot
  | WiFi_connected
  | WiFi_connection_failed
  | WiFi_connection_lost
  | WiFi_reconnected
  | Cannot_poll
  | Starting_cycle
  | Launched nat nat string
  | Cycle_failed int
  | Cycle_all_successful
  | Init_failed nat
  | Sending nat
  | Response_code nat int
  | Success nat
  | HTTP_error_code nat int
  | Request_failed nat int
  | Connection_refused nat
  | Connection_lost nat
  | Read_timeout nat

text \<open>
  What a task does to the shared state, one constructor per access. \<^verbatim>\<open>failedRequests++\<close>
  and \<^verbatim>\<open>activeRequests--\<close> on a plain \<^verbatim>\<open>int\<close> are a read followed by a write; the value
  read is kept in the task's own register. The test \<^verbatim>\<open>if (failedRequests == 0)\<close> of the
  success branch is \<open>ReadFailed\<close> followed by \<open>DigitalWriteIfZero\<close>. \<open>WriteActive\<close> and
  \<open>WriteFailed\<close> are the two assignments at the start of a poll cycle.
\<close>

datatype action =
    Serial_println msg
  | Delay "32 word"
  | DigitalWrite pin bool
  | DigitalWriteIfZero pin bool
  | SemaphoreTake
  | SemaphoreGive
  | ReadFailed
  | WriteFailedInc
  | ReadActive
  | WriteActiveDec
  | WriteActive int
  | WriteFailed int

record task =
  prog :: "action list"
  reg :: int

record dev =
  lastPollTime :: "32 word"
  activeRequests :: int
  failedRequests :: int
  ledMutex :: "owner option"
  blue_led :: bool
  red_led :: bool
  lastCheckTime :: "32 word"
  wasConnected :: bool
  tasks :: "nat \<Rightarrow> task"
  ntasks :: nat
  trace :: "(owner \<times> action) list"

definition HIGH :: bool where "HIGH = True"
definition LOW :: bool where "LOW = False"

text \<open>Constants of the HTTPClient library header, which the source uses by name.\<close>

definition HTTP_CODE_OK :: int where "HTTP_CODE_OK = 200"
definition HTTPC_ERROR_CONNECTION_REFUSED :: int where "HTTPC_ERROR_CONNECTION_REFUSED = - 1"
definition HTTPC_ERROR_CONNECTION_LOST :: int where "HTTPC_ERROR_CONNECTION_LOST = - 5"
definition HTTPC_ERROR_READ_TIMEOUT :: int where "HTTPC_ERROR_READ_TIMEOUT = - 11"

subsection \<open>Primitives\<close>

definition logged :: "owner \<Rightarrow> action \<Rightarrow> dev \<Rightarrow> dev" where
  "logged who a s = s\<lparr>trace := trace s @ [(who, a)]\<rparr>"

definition set_pin :: "pin \<Rightarrow> bool \<Rightarrow> dev \<Rightarrow> dev" where
  "set_pin p v s = (case p of BLUE_LED_PIN \<Rightarrow> s\<lparr>blue_led := v\<rparr> | RED_LED_PIN \<Rightarrow> s\<lparr>red_led := v\<rparr>)"

definition println :: "owner \<Rightarrow> msg \<Rightarrow> dev \<Rightarrow> dev" where
  "println who m s = logged who (Serial_println m) s"

definition delay :: "owner \<Rightarrow> 32 word \<Rightarrow> dev \<Rightarrow> dev" where
  "delay who ms s = logged who (Delay ms) s"

definition digitalWrite :: "owner \<Rightarrow> pin \<Rightarrow> bool \<Rightarrow> dev \<Rightarrow> dev" where
  "digitalWrite who p v s = logged who (DigitalWrite p v) (set_pin p v s)"

text \<open>\<^verbatim>\<open>xSemaphoreTake(ledMutex, portMAX_DELAY)\<close> waits until the mutex is free: a task
  whose next action is a take cannot move while another one holds the mutex.\<close>

fun enabled :: "action \<Rightarrow> dev \<Rightarrow> bool" where
  "enabled SemaphoreTake s = (ledMutex s = None)"
| "enabled a s = True"

text \<open>One action of task \<open>who\<close> with register \<open>r\<close>: the new register and the new state.\<close>

fun exec :: "owner \<Rightarrow> action \<Rightarrow> int \<Rightarrow> dev \<Rightarrow> int \<times> dev" where
  "exec who (Serial_println m) r s = (r, println who m s)"
| "exec who (Delay ms) r s = (r, delay who ms s)"
| "exec who (DigitalWrite p v) r s = (r, digitalWrite who p v s)"
| "exec who (DigitalWriteIfZero p v) r s =
     (r, if r = 0 then digitalWrite who p v s else logged who (DigitalWriteIfZero p v) s)"
| "exec who SemaphoreTake r s = (r, logged who SemaphoreTake (s\<lparr>ledMutex := Some who\<rparr>))"
| "exec who SemaphoreGive r s = (r, logged who SemaphoreGive (s\<lparr>ledMutex := None\<rparr>))"
| "exec who ReadFailed r s = (failedRequests s, logged who ReadFailed s)"
| "exec who WriteFailedInc r s = (r, logged who WriteFailedInc (s\<lparr>failedRequests := r + 1\<rparr>))"
| "exec who ReadActive r s = (activeRequests s, logged who ReadActive s)"
| "exec who WriteActiveDec r s = (r, logged who WriteActiveDec (s\<lparr>activeRequests := r - 1\<rparr>))"
| "exec who (WriteActive n) r s = (r, logged who (WriteActive n) (s\<lparr>activeRequests := n\<rparr>))"
| "exec who (WriteFailed n) r s = (r, logged who (WriteFailed n) (s\<lparr>failedRequests := n\<rparr>))"

text \<open>A task running alone: its actions one after another, \<open>None\<close> when it would wait
  for the mutex forever.\<close>

fun run :: "owner \<Rightarrow> action list \<Rightarrow> int \<times> dev \<Rightarrow> (int \<times> dev) option" where
  "run who [] rs = Some rs"
| "run who (a # as) (r, s) = (if enabled a s then run who as (exec who a r s) else None)"

section \<open>The endpoint worker\<close>

text \<open>
  \<^verbatim>\<open>sendGetRequest(url, index)\<close>. The url is used by \<^verbatim>\<open>http.begin\<close> only; the model takes
  what the network answers for it: \<open>begin_ok\<close>, the result of \<^verbatim>\<open>http.begin\<close>, and
  \<open>httpCode\<close>, the result of \<^verbatim>\<open>http.GET()\<close>.
\<close>

definition led_on_error :: "action list" where
  "led_on_error = [SemaphoreTake, DigitalWrite RED_LED_PIN HIGH, SemaphoreGive]"

definition failedRequests_incr :: "action list" where
  "failedRequests_incr = [ReadFailed, WriteFailedInc]"

definition activeRequests_decr :: "action list" where
  "activeRequests_decr = [ReadActive, WriteActiveDec]"

definition sendGetRequest :: "nat \<Rightarrow> bool \<Rightarrow> int \<Rightarrow> action list" where
  "sendGetRequest index begin_ok httpCode =
     (if \<not> begin_ok then
        [Serial_println (Init_failed index)] @ led_on_error @ failedRequests_incr
      else
        [Serial_println (Sending index)] @
        (if httpCode > 0 then
           [Serial_println (Response_code index httpCode)] @
           (if httpCode = HTTP_CODE_OK then
              [Serial_println (Success index),
               SemaphoreTake, ReadFailed, DigitalWriteIfZero RED_LED_PIN LOW, SemaphoreGive]
            else
              [Serial_println (HTTP_error_code index httpCode)] @ led_on_error @
              failedRequests_incr)
         else
           [Serial_println (Request_failed index httpCode)] @ led_on_error @
           failedRequests_incr @
           (if httpCode = HTTPC_ERROR_CONNECTION_REFUSED then
              [Serial_println (Connection_refused index)]
            else if httpCode = HTTPC_ERROR_CONNECTION_LOST then
              [Serial_println (Connection_lost index)]
            else if httpCode = HTTPC_ERROR_READ_TIMEOUT then
              [Serial_println (Read_timeout index)]
            else [])))"

text \<open>\<^verbatim>\<open>sendGetRequestTask\<close>: the request, then \<^verbatim>\<open>activeRequests--\<close>; the task then
  deletes itself.\<close>

definition sendGetRequestTask :: "nat \<Rightarrow> bool \<Rightarrow> int \<Rightarrow> action list" where
  "sendGetRequestTask index begin_ok httpCode =
     sendGetRequest index begin_ok httpCode @ activeRequests_decr"


section \<open>Tasks and their scheduling\<close>

text \<open>
  \<^verbatim>\<open>xTaskCreate\<close> adds a task (its creation is taken to succeed; the source ignores the
  result). The scheduler is the environment: a schedule names, action by action, the
  task that moves next. A task that has finished, or that waits for the mutex, does not
  move.
\<close>

definition xTaskCreate :: "action list \<Rightarrow> dev \<Rightarrow> dev" where
  "xTaskCreate p s =
     s\<lparr>tasks := (tasks s)(ntasks s := \<lparr>prog = p, reg = 0\<rparr>), ntasks := Suc (ntasks s)\<rparr>"

definition step_task :: "nat \<Rightarrow> dev \<Rightarrow> dev" where
  "step_task i s =
     (case prog (tasks s i) of
        [] \<Rightarrow> s
      | a # as \<Rightarrow>
          if enabled a s then
            (case exec (HTTPTask i) a (reg (tasks s i)) s of
               (r', s') \<Rightarrow> s'\<lparr>tasks := (tasks s')(i := \<lparr>prog = as, reg = r'\<rparr>)\<rparr>)
          else s)"

definition run_sched :: "nat list \<Rightarrow> dev \<Rightarrow> dev" where
  "run_sched sched s = fold step_task sched s"

section \<open>The link supervisor\<close>

fun blink :: "nat \<Rightarrow> 32 word \<Rightarrow> dev \<Rightarrow> dev" where
  "blink 0 d s = s"
| "blink (Suc n) d s =
     blink n d
       (delay LoopTask d (digitalWrite LoopTask BLUE_LED_PIN LOW
         (delay LoopTask d (digitalWrite LoopTask BLUE_LED_PIN HIGH s))))"

text \<open>\<^verbatim>\<open>blinkBlueLED(times, delayMs)\<close>: the loop runs for \<open>i = 0, ..., ntimes - 1\<close>, not at all
  when \<open>ntimes \<le> 0\<close>; \<^verbatim>\<open>delay\<close> takes its argument as a 32-bit unsigned value.\<close>

definition blinkBlueLED :: "int \<Rightarrow> int \<Rightarrow> dev \<Rightarrow> dev" where
  "blinkBlueLED ntimes delayMs s = blink (nat ntimes) (word_of_int delayMs) s"

definition MAX_ATTEMPTS :: nat where "MAX_ATTEMPTS = 30"

text \<open>
  The wait of \<^verbatim>\<open>connectToWiFi\<close>. \<open>st k\<close> is what call number \<open>k\<close> (from 0) of
  \<^verbatim>\<open>WiFi.status()\<close> in this run returns: \<open>True\<close> for \<^verbatim>\<open>WL_CONNECTED\<close>. The loop calls it once
  per test, so the test made with \<open>attempts = k\<close> is call \<open>k\<close>.
\<close>

function await_link :: "(nat \<Rightarrow> bool) \<Rightarrow> nat \<Rightarrow> dev \<Rightarrow> nat \<times> dev" where
  "await_link st attempts s =
     (if \<not> st attempts \<and> attempts < MAX_ATTEMPTS then
        await_link st (attempts + 1) (println LoopTask Dot (delay LoopTask 500 s))
      else (attempts, s))"
  by pat_completeness auto
termination
  by (relation "measure (\<lambda>(st, attempts, s). MAX_ATTEMPTS - attempts)") auto

declare await_link.simps [simp del]

text \<open>\<^verbatim>\<open>connectToWiFi\<close>: after the wait, \<^verbatim>\<open>WiFi.status()\<close> is called once more (call number
  \<open>attempts + 1\<close>) and decides between the two branches.\<close>

definition connectToWiFi :: "(nat \<Rightarrow> bool) \<Rightarrow> dev \<Rightarrow> dev" where
  "connectToWiFi st s =
     (case await_link st 0 (println LoopTask Connecting_to_WiFi s) of
        (attempts, s1) \<Rightarrow>
          if st (attempts + 1) then
            blinkBlueLED 3 200
              (digitalWrite LoopTask RED_LED_PIN LOW (println LoopTask WiFi_connected s1))
          else
            digitalWrite LoopTask RED_LED_PIN HIGH (println LoopTask WiFi_connection_failed s1))"

text \<open>\<^verbatim>\<open>checkWiFiConnection\<close>: \<open>currentTime\<close> is the value of \<^verbatim>\<open>millis()\<close>, \<open>status\<close> what
  \<^verbatim>\<open>WiFi.status()\<close> returns at the check, \<open>st\<close> what it returns inside the reconnect.\<close>

definition checkWiFiConnection :: "32 word \<Rightarrow> bool \<Rightarrow> (nat \<Rightarrow> bool) \<Rightarrow> dev \<Rightarrow> dev" where
  "checkWiFiConnection currentTime status st s =
     (if currentTime - lastCheckTime s \<ge> 1000 then
        (let s1 = s\<lparr>lastCheckTime := currentTime\<rparr> in
         if \<not> status then
           connectToWiFi st
             (if wasConnected s1 then
                digitalWrite LoopTask RED_LED_PIN HIGH
                  ((println LoopTask WiFi_connection_lost s1)\<lparr>wasConnected := False\<rparr>)
              else s1)
         else if \<not> wasConnected s1 then
           digitalWrite LoopTask RED_LED_PIN LOW
             (println LoopTask WiFi_reconnected (s1\<lparr>wasConnected := True\<rparr>))
         else s1)
      else s)"

section \<open>The poll coordinator\<close>

definition cannot_poll :: "action list" where
  "cannot_poll = [Serial_println Cannot_poll] @ led_on_error"

definition reset_counters :: "int \<Rightarrow> action list" where
  "reset_counters n = [WriteActive n, WriteFailed 0]"

text \<open>
  The loop that creates the tasks. \<open>net k\<close> is what the network answers to the worker
  with index \<open>k\<close> (the result of \<^verbatim>\<open>http.begin\<close> and of \<^verbatim>\<open>http.GET()\<close>); the task created
  for entry \<open>i\<close> of the table has index \<open>i + 1\<close>. After each \<^verbatim>\<open>xTaskCreate\<close>, and during each
  \<^verbatim>\<open>delay(50)\<close> of the wait below, the tasks move as the next entry of the schedule says.
\<close>

definition worker_prog :: "(nat \<Rightarrow> bool \<times> int) \<Rightarrow> nat \<Rightarrow> action list" where
  "worker_prog net i = sendGetRequestTask (i + 1) (fst (net (i + 1))) (snd (net (i + 1)))"

definition next_moves :: "nat list list \<Rightarrow> nat list" where
  "next_moves sched = (case sched of [] \<Rightarrow> [] | c # cs \<Rightarrow> c)"

fun launch ::
  "(nat \<Rightarrow> bool \<times> int) \<Rightarrow> nat \<Rightarrow> nat \<Rightarrow> string list \<Rightarrow> nat list list \<Rightarrow> dev
     \<Rightarrow> nat list list \<times> dev" where
  "launch net n i [] sched s = (sched, s)"
| "launch net n i (url # urls) sched s =
     launch net n (i + 1) urls (tl sched)
       (run_sched (next_moves sched)
         (println LoopTask (Launched (i + 1) n url)
           (xTaskCreate (worker_prog net i) s)))"

text \<open>\<^verbatim>\<open>while (activeRequests > 0) delay(50);\<close> The result is \<open>None\<close> when the schedule ends
  before the counter is seen at 0 or below.\<close>

definition isComplete :: "int \<Rightarrow> bool" where
  "isComplete remaining = (\<not> remaining > 0)"

fun wait_tasks :: "nat list list \<Rightarrow> dev \<Rightarrow> dev option" where
  "wait_tasks [] s =
     (case exec LoopTask ReadActive 0 s of (r, s1) \<Rightarrow> if isComplete r then Some s1 else None)"
| "wait_tasks (c # cs) s =
     (case exec LoopTask ReadActive 0 s of
        (r, s1) \<Rightarrow>
          if isComplete r then Some s1 else wait_tasks cs (run_sched c (delay LoopTask 50 s1)))"

definition cycle_summary :: "dev \<Rightarrow> dev" where
  "cycle_summary s =
     (case exec LoopTask ReadFailed 0 s of
        (r, s1) \<Rightarrow>
          if r > 0 then
            (case exec LoopTask ReadFailed r s1 of
               (r', s2) \<Rightarrow> println LoopTask (Cycle_failed r') s2)
          else println LoopTask Cycle_all_successful s1)"

text \<open>\<^verbatim>\<open>pollEndpoints\<close>: \<open>status\<close> is what \<^verbatim>\<open>WiFi.status()\<close> returns at its first line,
  \<open>API_ENDPOINTS\<close> the table of endpoints (two entries in the source). The result is \<open>None\<close>
  when the function does not return.\<close>

definition pollEndpoints ::
  "bool \<Rightarrow> string list \<Rightarrow> (nat \<Rightarrow> bool \<times> int) \<Rightarrow> nat list list \<Rightarrow> dev \<Rightarrow> dev option" where
  "pollEndpoints status API_ENDPOINTS net sched s =
     (if \<not> status then map_option snd (run LoopTask cannot_poll (0, s))
      else
        (case run LoopTask
                (Serial_println Starting_cycle # reset_counters (int (length API_ENDPOINTS)))
                (0, s) of
           None \<Rightarrow> None
         | Some (r, s1) \<Rightarrow>
             (case launch net (length API_ENDPOINTS) 0 API_ENDPOINTS sched s1 of
                (sched', s2) \<Rightarrow> map_option cycle_summary (wait_tasks sched' s2))))"

section \<open>Start-up\<close>

text \<open>The state at power-on (the pins at unknown levels) and the first lines of
  \<^verbatim>\<open>setup\<close>, up to the creation of the mutex.\<close>

definition power_on :: "bool \<Rightarrow> bool \<Rightarrow> dev" where
  "power_on b r =
     \<lparr>lastPollTime = 0, activeRequests = 0, failedRequests = 0, ledMutex = None,
      blue_led = b, red_led = r, lastCheckTime = 0, wasConnected = False,
      tasks = (\<lambda>i. \<lparr>prog = [], reg = 0\<rparr>), ntasks = 0, trace = []\<rparr>"

definition init_pins :: "dev \<Rightarrow> dev" where
  "init_pins s =
     digitalWrite LoopTask RED_LED_PIN LOW
       (digitalWrite LoopTask BLUE_LED_PIN LOW (delay LoopTask 1000 s))"

text \<open>
  \<^verbatim>\<open>setup\<close> (\<open>arduino_setup\<close> here), from power-on: \<open>st\<close> are the statuses seen by
  \<^verbatim>\<open>connectToWiFi\<close>, \<open>status\<close> the one read by \<^verbatim>\<open>setup\<close> after it, \<open>status'\<close> the one read
  by \<^verbatim>\<open>pollEndpoints\<close>, \<open>now\<close> the value of \<^verbatim>\<open>millis()\<close> after the first cycle.
\<close>

definition arduino_setup ::
  "bool \<Rightarrow> bool \<Rightarrow> (nat \<Rightarrow> bool) \<Rightarrow> bool \<Rightarrow> bool \<Rightarrow> string list \<Rightarrow> (nat \<Rightarrow> bool \<times> int)
     \<Rightarrow> nat list list \<Rightarrow> 32 word \<Rightarrow> dev option" where
  "arduino_setup b r st status status' API_ENDPOINTS net sched now =
     (let s = connectToWiFi st
                (delay LoopTask 100 (println LoopTask Banner (init_pins (power_on b r))))
      in if status then
           map_option (\<lambda>s'. s'\<lparr>lastPollTime := now\<rparr>)
             (pollEndpoints status' API_ENDPOINTS net sched s)
         else Some s)"

definition POLL_INTERVAL_MS :: "32 word" where "POLL_INTERVAL_MS = 30000"

text \<open>One round of \<^verbatim>\<open>loop\<close>: \<open>t\<close> is the value of \<^verbatim>\<open>millis()\<close> in \<^verbatim>\<open>checkWiFiConnection\<close>,
  \<open>currentTime\<close> its value in \<^verbatim>\<open>loop\<close>.\<close>

definition loop ::
  "32 word \<Rightarrow> bool \<Rightarrow> (nat \<Rightarrow> bool) \<Rightarrow> 32 word \<Rightarrow> bool \<Rightarrow> string list
     \<Rightarrow> (nat \<Rightarrow> bool \<times> int) \<Rightarrow> nat list list \<Rightarrow> dev \<Rightarrow> dev option" where
  "loop t status st currentTime status' API_ENDPOINTS net sched s =
     (let s1 = checkWiFiConnection t status st s in
      map_option (delay LoopTask 100)
        (if currentTime - lastPollTime s1 \<ge> POLL_INTERVAL_MS then
           pollEndpoints status' API_ENDPOINTS net sched (s1\<lparr>lastPollTime := currentTime\<rparr>)
         else Some s1))"

section \<open>Notions used to state the properties\<close>

subsection \<open>Workers finishing one after another\<close>








subsection \<open>Holding the mutex\<close>

text \<open>\<open>guarded P held p\<close>: every action of \<open>p\<close> that satisfies \<open>P\<close> comes between a take and
  the give that follows it (\<open>held\<close> says whether the mutex is held at the start);
  \<open>unguarded P held p\<close>: every such action comes outside.\<close>

fun guarded :: "(action \<Rightarrow> bool) \<Rightarrow> bool \<Rightarrow> action list \<Rightarrow> bool" where
  "guarded P held [] = True"
| "guarded P held (SemaphoreTake # as) = guarded P True as"
| "guarded P held (SemaphoreGive # as) = guarded P False as"
| "guarded P held (a # as) = ((\<not> P a \<or> held) \<and> guarded P held as)"

fun unguarded :: "(action \<Rightarrow> bool) \<Rightarrow> bool \<Rightarrow> action list \<Rightarrow> bool" where
  "unguarded P held [] = True"
| "unguarded P held (SemaphoreTake # as) = unguarded P True as"
| "unguarded P held (SemaphoreGive # as) = unguarded P False as"
| "unguarded P held (a # as) = ((\<not> P a \<or> \<not> held) \<and> unguarded P held as)"

fun reads_tally :: "action \<Rightarrow> bool" where
  "reads_tally ReadFailed = True"
| "reads_tally ReadActive = True"
| "reads_tally a = False"

fun writes_tally :: "action \<Rightarrow> bool" where
  "writes_tally WriteFailedInc = True"
| "writes_tally WriteActiveDec = True"
| "writes_tally (WriteActive n) = True"
| "writes_tally (WriteFailed n) = True"
| "writes_tally a = False"

definition accesses_tally :: "action \<Rightarrow> bool" where
  "accesses_tally a = (reads_tally a \<or> writes_tally a)"

fun writes_red :: "action \<Rightarrow> bool" where
  "writes_red (DigitalWrite p v) = (p = RED_LED_PIN)"
| "writes_red (DigitalWriteIfZero p v) = (p = RED_LED_PIN)"
| "writes_red a = False"

subsection \<open>The outcome a worker reports\<close>

datatype outcome = Succeeded | HttpError int | TransportError int

fun outcome_of :: "action \<Rightarrow> outcome option" where
  "outcome_of (Serial_println (Success i)) = Some Succeeded"
| "outcome_of (Serial_println (HTTP_error_code i c)) = Some (HttpError c)"
| "outcome_of (Serial_println (Request_failed i c)) = Some (TransportError c)"
| "outcome_of a = None"

definition reported :: "action list \<Rightarrow> outcome list" where
  "reported p = List.map_filter outcome_of p"

text \<open>The classification in the words of the specification, to compare with the code.\<close>

definition spec_classify :: "int \<Rightarrow> outcome" where
  "spec_classify code =
     (if code > 0 \<and> code = HTTP_CODE_OK then Succeeded
      else if code > 0 then HttpError code
      else TransportError code)"

subsection \<open>Sequences of health checks\<close>

text \<open>A sequence of calls of \<^verbatim>\<open>checkWiFiConnection\<close>, each with the time of the call, the
  link status it observes and the statuses seen by the reconnect it may start.\<close>

fun checks :: "(32 word \<times> bool \<times> (nat \<Rightarrow> bool)) list \<Rightarrow> dev \<Rightarrow> dev" where
  "checks [] s = s"
| "checks ((t, status, st) # cs) s = checks cs (checkWiFiConnection t status st s)"

text \<open>Every call of the sequence is at least a second after the check before it, so
  that it does check the link.\<close>

fun all_due :: "32 word \<Rightarrow> 32 word list \<Rightarrow> bool" where
  "all_due prev [] = True"
| "all_due prev (t # ts) = (t - prev \<ge> 1000 \<and> all_due t ts)"

definition printed :: "msg \<Rightarrow> dev \<Rightarrow> nat" where
  "printed m s = count_list (trace s) (LoopTask, Serial_println m)"

subsection \<open>The states the program goes through\<close>

text \<open>From power-on, through the first lines of \<^verbatim>\<open>setup\<close>, any sequence of the operations
  of the file, and any action of any task at any moment. This covers every state in which
  \<^verbatim>\<open>setup\<close> and the rounds of \<^verbatim>\<open>loop\<close> can end, and the states in between.\<close>

inductive reachable :: "dev \<Rightarrow> bool" where
  start: "reachable (init_pins (power_on b r))"
| connect: "reachable s \<Longrightarrow> reachable (connectToWiFi st s)"
| check: "reachable s \<Longrightarrow> reachable (checkWiFiConnection t status st s)"
| poll: "reachable s \<Longrightarrow> pollEndpoints status urls net sched s = Some s' \<Longrightarrow> reachable s'"
| moves: "reachable s \<Longrightarrow> reachable (step_task i s)"
| timer: "reachable s \<Longrightarrow> reachable (s\<lparr>lastPollTime := t\<rparr>)"
| sleep: "reachable s \<Longrightarrow> reachable (delay LoopTask ms s)"
| prints: "reachable s \<Longrightarrow> reachable (println LoopTask m s)"

subsection \<open>What \<^verbatim>\<open>connectToWiFi\<close> leaves behind\<close>

text \<open>The trace of \<open>n\<close> rounds of the wait and of one pulse of the blue LED, and the two
  states in which \<^verbatim>\<open>connectToWiFi\<close> can end after \<open>n\<close> rounds: link up (red LED off, three
  pulses of the blue LED) and link down (red LED on).\<close>

definition link_wait :: "nat \<Rightarrow> (owner \<times> action) list" where
  "link_wait n = concat (replicate n [(LoopTask, Delay 500), (LoopTask, Serial_println Dot)])"

definition pulse :: "32 word \<Rightarrow> (owner \<times> action) list" where
  "pulse d =
     [(LoopTask, DigitalWrite BLUE_LED_PIN HIGH), (LoopTask, Delay d),
      (LoopTask, DigitalWrite BLUE_LED_PIN LOW), (LoopTask, Delay d)]"

definition link_up :: "nat \<Rightarrow> dev \<Rightarrow> dev" where
  "link_up n s =
     s\<lparr>blue_led := LOW, red_led := LOW,
       trace := trace s @ [(LoopTask, Serial_println Connecting_to_WiFi)] @ link_wait n @
         [(LoopTask, Serial_println WiFi_connected), (LoopTask, DigitalWrite RED_LED_PIN LOW)] @
         pulse 200 @ pulse 200 @ pulse 200\<rparr>"

definition link_down :: "nat \<Rightarrow> dev \<Rightarrow> dev" where
  "link_down n s =
     s\<lparr>red_led := HIGH,
       trace := trace s @ [(LoopTask, Serial_println Connecting_to_WiFi)] @ link_wait n @
         [(LoopTask, Serial_println WiFi_connection_failed),
          (LoopTask, DigitalWrite RED_LED_PIN HIGH)]\<rparr>"

subsection \<open>Edges in a sequence of observed link states\<close>

text \<open>The number of changes from connected to not connected, and back, in a sequence of
  observed states that follows the state \<open>w\<close>.\<close>

fun lost_edges :: "bool \<Rightarrow> bool list \<Rightarrow> nat" where
  "lost_edges w [] = 0"
| "lost_edges w (b # bs) = (if w \<and> \<not> b then 1 else 0) + lost_edges b bs"

fun reconnected_edges :: "bool \<Rightarrow> bool list \<Rightarrow> nat" where
  "reconnected_edges w [] = 0"
| "reconnected_edges w (b # bs) = (if \<not> w \<and> b then 1 else 0) + reconnected_edges b bs"

subsection \<open>The blue LED\<close>

text \<open>The blue LED is off and no task has a write of its pin ahead.\<close>

fun writes_blue :: "action \<Rightarrow> bool" where
  "writes_blue (DigitalWrite p v) = (p = BLUE_LED_PIN)"
| "writes_blue (DigitalWriteIfZero p v) = (p = BLUE_LED_PIN)"
| "writes_blue a = False"

definition blue_off :: "dev \<Rightarrow> bool" where
  "blue_off s = (\<not> blue_led s \<and> (\<forall>i. \<forall>a \<in> set (prog (tasks s i)). \<not> writes_blue a))"

subsection \<open>Invariant of the counters and the red LED between workers\<close>






text \<open>What the tasks share: the mutex, the two counters and the red LED.\<close>

definition view :: "dev \<Rightarrow> owner option \<times> int \<times> int \<times> bool" where
  "view s = (ledMutex s, activeRequests s, failedRequests s, red_led s)"






section \<open>Properties\<close>

lemmas prim_defs = println_def delay_def digitalWrite_def logged_def set_pin_def HIGH_def LOW_def

lemmas http_defs = HTTP_CODE_OK_def HTTPC_ERROR_CONNECTION_REFUSED_def
  HTTPC_ERROR_CONNECTION_LOST_def HTTPC_ERROR_READ_TIMEOUT_def

lemmas worker_defs = sendGetRequestTask_def sendGetRequest_def led_on_error_def
  failedRequests_incr_def activeRequests_decr_def

lemma boot_state [simp]:
  "ledMutex (init_pins (power_on b r)) = None"
  "activeRequests (init_pins (power_on b r)) = 0"
  "failedRequests (init_pins (power_on b r)) = 0"
  "red_led (init_pins (power_on b r)) = False"
  "blue_led (init_pins (power_on b r)) = False"
  "wasConnected (init_pins (power_on b r)) = False"
  "lastCheckTime (init_pins (power_on b r)) = 0"
  "ntasks (init_pins (power_on b r)) = 0"
  by (simp_all add: init_pins_def power_on_def prim_defs)

subsection \<open>Recording a worker's outcome\<close>




subsection \<open>Classification of the result of the GET\<close>

text \<open>
  C4. A worker whose client was initialised reports exactly one outcome for the result
  of its GET, the one the specification names: a positive code equal to the OK code is a
  success and leaves \<open>failedRequests\<close> as it is; any other positive code is an HTTP error
  with that code; a code that is not positive is a transport error; the last two add one
  to \<open>failedRequests\<close>.
\<close>

theorem worker_classifies_result:
  assumes "ledMutex s = None"
  shows "reported (sendGetRequest index True httpCode) = [spec_classify httpCode] \<and>
     (\<exists>r' s'. run who (sendGetRequest index True httpCode) (r, s) = Some (r', s') \<and>
        failedRequests s' =
          (if spec_classify httpCode = Succeeded then failedRequests s
           else failedRequests s + 1))"
  using assms
  by (simp add: worker_defs reported_def spec_classify_def List.map_filter_simps prim_defs)

theorem worker_classifies_result_witness:
  "ledMutex (init_pins (power_on False False)) = None \<and>
   reported (sendGetRequest 2 True 404) = [HttpError 404] \<and>
   (\<exists>r' s'. run (HTTPTask 1) (sendGetRequest 2 True 404) (0, init_pins (power_on False False))
        = Some (r', s') \<and> failedRequests s' = 1)"
proof -
  have free: "ledMutex (init_pins (power_on False False)) = None"
    by simp
  have "spec_classify 404 = HttpError 404"
    by (simp add: spec_classify_def HTTP_CODE_OK_def)
  then show ?thesis
    using free worker_classifies_result [OF free, of 2 404 "HTTPTask 1" 0] by simp
qed

subsection \<open>What the mutex guards\<close>

text \<open>
  C2, as stated: every read and write of the two counters is made while holding the
  mutex. A worker that receives status 500 refutes it: it adds one to \<open>failedRequests\<close>
  and takes one from \<open>activeRequests\<close> after it has given the mutex back.
\<close>

theorem tally_not_guarded:
  "\<not> guarded accesses_tally False (sendGetRequestTask 1 True 500)"
  by (simp add: worker_defs accesses_tally_def HTTP_CODE_OK_def)

text \<open>
  C2, amended: the mutex guards the red LED. Every write of the red LED by a worker and
  by \<^verbatim>\<open>pollEndpoints\<close>, and the worker's read of \<open>failedRequests\<close> that decides whether to
  switch it off, is made while holding the mutex; the writes of the two counters (by a
  worker, and at the start of a cycle) are made without it.
\<close>

theorem mutex_guards_red_led:
  "guarded writes_red False (sendGetRequestTask index begin_ok httpCode) \<and>
   guarded writes_red False cannot_poll \<and>
   guarded reads_tally False (sendGetRequest index True HTTP_CODE_OK) \<and>
   unguarded writes_tally False (sendGetRequestTask index begin_ok httpCode) \<and>
   unguarded writes_tally False (reset_counters n)"
  by (simp add: worker_defs cannot_poll_def reset_counters_def HIGH_def LOW_def http_defs)

theorem mutex_guards_red_led_witness:
  "guarded writes_red False (sendGetRequestTask 1 True 500) \<and>
   guarded writes_red False cannot_poll \<and>
   guarded reads_tally False (sendGetRequest 1 True HTTP_CODE_OK) \<and>
   unguarded writes_tally False (sendGetRequestTask 1 True 500) \<and>
   unguarded writes_tally False (reset_counters 2)"
  using mutex_guards_red_led [of 1 True 500 2] by simp

subsection \<open>Polling without a link, and without endpoints\<close>

text \<open>
  C5. Called while the link is not connected, with the mutex free (no task is inside its
  critical section), \<^verbatim>\<open>pollEndpoints\<close> switches the red LED on and returns: the two
  counters and the tasks are as before, and nothing else happens than one line of output
  and the write of the LED under the mutex.
\<close>

theorem poll_not_connected:
  assumes "ledMutex s = None"
  shows "pollEndpoints False urls net sched s =
     Some (s\<lparr>red_led := HIGH,
             trace := trace s @
               [(LoopTask, Serial_println Cannot_poll), (LoopTask, SemaphoreTake),
                (LoopTask, DigitalWrite RED_LED_PIN HIGH), (LoopTask, SemaphoreGive)]\<rparr>)"
  using assms
  by (simp add: pollEndpoints_def cannot_poll_def led_on_error_def prim_defs)

theorem poll_not_connected_witness:
  "ledMutex (init_pins (power_on False False)) = None \<and>
   map_option (\<lambda>s. (red_led s, activeRequests s, failedRequests s, ntasks s))
     (pollEndpoints False [''a'', ''b''] (\<lambda>k. (True, 200)) [] (init_pins (power_on False False)))
   = Some (True, 0, 0, 0)"
proof -
  have free: "ledMutex (init_pins (power_on False False)) = None"
    by simp
  show ?thesis
    using free poll_not_connected [OF free, of "[''a'', ''b'']" "\<lambda>k. (True, 200)" "[]"]
    by (simp add: HIGH_def)
qed

text \<open>
  C9. With no endpoint and the link connected, \<^verbatim>\<open>pollEndpoints\<close> returns, whatever the
  schedule: it creates no task, its wait reads \<open>activeRequests\<close> once and makes no
  \<^verbatim>\<open>delay\<close>, \<open>failedRequests\<close> is 0 and the summary is the line of a successful cycle.
\<close>

theorem poll_no_endpoints:
  "pollEndpoints True [] net sched s =
     Some (s\<lparr>activeRequests := 0, failedRequests := 0,
             trace := trace s @
               [(LoopTask, Serial_println Starting_cycle),
                (LoopTask, WriteActive 0), (LoopTask, WriteFailed 0), (LoopTask, ReadActive),
                (LoopTask, ReadFailed), (LoopTask, Serial_println Cycle_all_successful)]\<rparr>)"
  by (cases sched)
    (simp_all add: pollEndpoints_def reset_counters_def cycle_summary_def isComplete_def
      prim_defs)

theorem poll_no_endpoints_witness:
  "map_option (\<lambda>s. (activeRequests s, failedRequests s, ntasks s))
     (pollEndpoints True [] (\<lambda>k. (True, 200)) [[0, 1]] (init_pins (power_on False False)))
   = Some (0, 0, 0)"
  using poll_no_endpoints [of "\<lambda>k. (True, 200)" "[[0, 1]]" "init_pins (power_on False False)"]
  by simp

subsection \<open>Workers that run one after another\<close>


lemma exec_keeps_tasks: "tasks (snd (exec who a r s)) = tasks s"
  by (cases a) (simp_all add: prim_defs split: pin.splits)

lemma run_sched_Cons: "run_sched (i # is) s = run_sched is (step_task i s)"
  by (simp add: run_sched_def)

lemma run_sched_append: "run_sched (xs @ ys) s = run_sched ys (run_sched xs s)"
  by (simp add: run_sched_def)

lemma run_sched_Nil: "run_sched [] s = s"
  by (simp add: run_sched_def)








lemma view_tasks_upd [simp]: "view (s\<lparr>tasks := T\<rparr>) = view s"
  by (simp add: view_def)

























subsection \<open>A cycle's counters\<close>




subsection \<open>The counters and the red LED at the end of a cycle\<close>


text \<open>
  Two more cycles in which the statement fails. In the first, worker 1 receives status
  500 and has switched the red LED on, but not yet counted its failure, when worker 2
  (status 200) reads \<open>failedRequests = 0\<close> and switches the LED off: the cycle ends with one
  failure counted and the red LED off. The second has no endpoint and starts with the
  red LED on (switched on by a call of \<^verbatim>\<open>pollEndpoints\<close> made while the link was down): no
  worker switches it off, and the cycle ends with \<open>failedRequests = 0\<close> and the LED on.
\<close>

lemma race_red_led_cleared_after_failure:
  "map_option (\<lambda>s. (activeRequests s, failedRequests s, red_led s))
     (pollEndpoints True [''a'', ''b''] (\<lambda>k. if k = 1 then (True, 500) else (True, 200))
        [[], [], [0, 0, 0, 0, 0, 0, 1, 1, 1, 1, 1, 1, 1, 1, 1, 0, 0, 0, 0]]
        (init_pins (power_on False False)))
   = Some (0, 1, False)"
  by code_simp

lemma empty_cycle_keeps_red_led:
  "map_option (\<lambda>s. (failedRequests s, red_led s))
     (Option.bind
        (pollEndpoints False [] (\<lambda>k. (True, 200)) [] (init_pins (power_on False False)))
        (pollEndpoints True [] (\<lambda>k. (True, 200)) []))
   = Some (0, True)"
  by code_simp



subsection \<open>Establishing the link\<close>

lemma link_wait_Suc: "link_wait (Suc n) = [(LoopTask, Delay 500), (LoopTask, Serial_println Dot)] @ link_wait n"
  by (simp add: link_wait_def)

lemma await_link_effect:
  "a \<le> MAX_ATTEMPTS \<Longrightarrow>
   \<exists>n. a \<le> n \<and> n \<le> MAX_ATTEMPTS \<and> (\<forall>k. a \<le> k \<and> k < n \<longrightarrow> \<not> st k) \<and>
     (n < MAX_ATTEMPTS \<longrightarrow> st n) \<and>
     await_link st a s = (n, s\<lparr>trace := trace s @ link_wait (n - a)\<rparr>)"
proof (induction st a s rule: await_link.induct)
  case (1 st attempts s)
  show ?case
  proof (cases "\<not> st attempts \<and> attempts < MAX_ATTEMPTS")
    case True
    let ?s1 = "println LoopTask Dot (delay LoopTask 500 s)"
    from True "1.prems" have le: "attempts + 1 \<le> MAX_ATTEMPTS" by simp
    from "1.IH" [OF True le]
    obtain n where n: "attempts + 1 \<le> n" "n \<le> MAX_ATTEMPTS"
      "\<forall>k. attempts + 1 \<le> k \<and> k < n \<longrightarrow> \<not> st k" "n < MAX_ATTEMPTS \<longrightarrow> st n"
      "await_link st (attempts + 1) ?s1 = (n, ?s1\<lparr>trace := trace ?s1 @ link_wait (n - (attempts + 1))\<rparr>)"
      by blast
    have sub: "n - attempts = Suc (n - (attempts + 1))" using n(1) by simp
    have tr: "?s1\<lparr>trace := trace ?s1 @ link_wait (n - (attempts + 1))\<rparr> =
        s\<lparr>trace := trace s @ link_wait (n - attempts)\<rparr>"
      by (simp add: sub link_wait_Suc prim_defs)
    have no: "\<forall>k. attempts \<le> k \<and> k < n \<longrightarrow> \<not> st k"
    proof (intro allI impI)
      fix k assume k: "attempts \<le> k \<and> k < n"
      show "\<not> st k"
      proof (cases "k = attempts")
        case True
        then show ?thesis using \<open>\<not> st attempts \<and> attempts < MAX_ATTEMPTS\<close> by simp
      next
        case False
        then show ?thesis using k n(3) by simp
      qed
    qed
    have "await_link st attempts s = (n, s\<lparr>trace := trace s @ link_wait (n - attempts)\<rparr>)"
      using True n(5) tr by (simp add: await_link.simps [of st attempts s])
    then show ?thesis
      using n(1,2,4) no by (intro exI [of _ n]) simp
  next
    case False
    then have "await_link st attempts s = (attempts, s\<lparr>trace := trace s @ link_wait (attempts - attempts)\<rparr>)"
      by (auto simp: link_wait_def await_link.simps [of st attempts s])
    then show ?thesis
      using False "1.prems" by (intro exI [of _ attempts]) auto
  qed
qed

lemma blinkBlueLED_3:
  "blinkBlueLED 3 200 s =
     s\<lparr>blue_led := LOW, trace := trace s @ pulse 200 @ pulse 200 @ pulse 200\<rparr>"
  by (simp add: blinkBlueLED_def eval_nat_numeral pulse_def prim_defs)

lemma connectToWiFi_cases:
  "\<exists>n \<le> MAX_ATTEMPTS. (\<forall>k < n. \<not> st k) \<and> (n < MAX_ATTEMPTS \<longrightarrow> st n) \<and>
     connectToWiFi st s = (if st (n + 1) then link_up n s else link_down n s)"
proof -
  let ?s0 = "println LoopTask Connecting_to_WiFi s"
  from await_link_effect [of 0 st ?s0]
  obtain n where n: "n \<le> MAX_ATTEMPTS" "\<forall>k. 0 \<le> k \<and> k < n \<longrightarrow> \<not> st k"
    "n < MAX_ATTEMPTS \<longrightarrow> st n"
    "await_link st 0 ?s0 = (n, ?s0\<lparr>trace := trace ?s0 @ link_wait (n - 0)\<rparr>)"
    by auto
  have "connectToWiFi st s =
      (if st (n + 1) then
         blinkBlueLED 3 200 (digitalWrite LoopTask RED_LED_PIN LOW (println LoopTask WiFi_connected
           (?s0\<lparr>trace := trace ?s0 @ link_wait n\<rparr>)))
       else digitalWrite LoopTask RED_LED_PIN HIGH (println LoopTask WiFi_connection_failed
           (?s0\<lparr>trace := trace ?s0 @ link_wait n\<rparr>)))"
    unfolding connectToWiFi_def n(4) by simp
  then have "connectToWiFi st s = (if st (n + 1) then link_up n s else link_down n s)"
    by (simp add: blinkBlueLED_3 link_up_def link_down_def prim_defs)
  then show ?thesis
    using n(1-3) by (intro exI [of _ n]) simp
qed

text \<open>
  C7, as stated: when the link comes up within the budget, \<^verbatim>\<open>connectToWiFi\<close> switches the
  red LED off, pulses the blue LED and reports the connection. A link that is connected
  at the test after the fifth round, and at no other read, refutes it: the wait stops
  after five rounds, the status read after the wait finds the link down, and the
  function switches the red LED on and prints the line of a failed connection.
\<close>

theorem link_up_at_one_test_reports_failure:
  "red_led (connectToWiFi (\<lambda>k. k = 5) (init_pins (power_on False False))) \<and>
   count_list (trace (connectToWiFi (\<lambda>k. k = 5) (init_pins (power_on False False))))
     (LoopTask, Delay 500) = 5 \<and>
   printed WiFi_connected (connectToWiFi (\<lambda>k. k = 5) (init_pins (power_on False False))) = 0 \<and>
   printed WiFi_connection_failed
     (connectToWiFi (\<lambda>k. k = 5) (init_pins (power_on False False))) = 1"
  by code_simp

text \<open>The other way round: a link that is down at every test of the wait and connected
  at the read after it is reported as connected, after 30 rounds.\<close>

lemma link_up_after_the_wait_reports_connected:
  "\<not> red_led (connectToWiFi (\<lambda>k. k = 31) (init_pins (power_on False True))) \<and>
   count_list (trace (connectToWiFi (\<lambda>k. k = 31) (init_pins (power_on False True))))
     (LoopTask, Delay 500) = 30 \<and>
   printed WiFi_connected (connectToWiFi (\<lambda>k. k = 31) (init_pins (power_on False True))) = 1"
  by code_simp

text \<open>
  C7, amended: \<^verbatim>\<open>connectToWiFi\<close> returns after \<open>n \<le> 30\<close> rounds of its wait, each a
  \<^verbatim>\<open>delay(500)\<close>: the link was not connected at the first \<open>n\<close> tests, and is connected at
  test \<open>n\<close> when \<open>n < 30\<close>. The status read after the wait decides: connected, the red LED
  is switched off, the blue LED makes exactly three pulses and the line of a successful
  connection is printed; not connected, the red LED is switched on and the line of a
  failed connection is printed. When the link comes up at one of the tests and stays up,
  the first holds; when it is down at every read, the second holds after 30 rounds.
\<close>

theorem connectToWiFi_establishes_link:
  "\<exists>n \<le> MAX_ATTEMPTS. (\<forall>k < n. \<not> st k) \<and> (n < MAX_ATTEMPTS \<longrightarrow> st n) \<and>
     connectToWiFi st s = (if st (n + 1) then link_up n s else link_down n s) \<and>
     ((\<exists>k \<le> MAX_ATTEMPTS. st k) \<and> (\<forall>k. st k \<longrightarrow> st (k + 1)) \<longrightarrow> st (n + 1)) \<and>
     ((\<forall>k \<le> MAX_ATTEMPTS + 1. \<not> st k) \<longrightarrow> n = MAX_ATTEMPTS \<and> \<not> st (n + 1))"
proof -
  from connectToWiFi_cases [of st s]
  obtain n where n: "n \<le> MAX_ATTEMPTS" "\<forall>k < n. \<not> st k" "n < MAX_ATTEMPTS \<longrightarrow> st n"
    "connectToWiFi st s = (if st (n + 1) then link_up n s else link_down n s)"
    by blast
  have up: "(\<exists>k \<le> MAX_ATTEMPTS. st k) \<and> (\<forall>k. st k \<longrightarrow> st (k + 1)) \<longrightarrow> st (n + 1)"
  proof
    assume h: "(\<exists>k \<le> MAX_ATTEMPTS. st k) \<and> (\<forall>k. st k \<longrightarrow> st (k + 1))"
    then obtain k where k: "k \<le> MAX_ATTEMPTS" "st k" by blast
    have "st n"
    proof (cases "n < MAX_ATTEMPTS")
      case True
      then show ?thesis using n(3) by simp
    next
      case False
      then have "n = MAX_ATTEMPTS" using n(1) by simp
      moreover have "\<not> k < n" using k(2) n(2) by blast
      ultimately have "k = n" using k(1) by simp
      then show ?thesis using k(2) by simp
    qed
    then show "st (n + 1)" using h by blast
  qed
  have down: "(\<forall>k \<le> MAX_ATTEMPTS + 1. \<not> st k) \<longrightarrow> n = MAX_ATTEMPTS \<and> \<not> st (n + 1)"
  proof
    assume h: "\<forall>k \<le> MAX_ATTEMPTS + 1. \<not> st k"
    have "\<not> n < MAX_ATTEMPTS"
    proof
      assume "n < MAX_ATTEMPTS"
      then have "st n" "n \<le> MAX_ATTEMPTS + 1" using n(3) by simp_all
      then show False using h by blast
    qed
    then have "n = MAX_ATTEMPTS" using n(1) by simp
    then show "n = MAX_ATTEMPTS \<and> \<not> st (n + 1)" using h by simp
  qed
  show ?thesis
    using n up down by (intro exI [of _ n]) simp
qed

theorem connectToWiFi_establishes_link_witness:
  "connectToWiFi (\<lambda>k. 2 \<le> k) (init_pins (power_on False False)) =
     link_up 2 (init_pins (power_on False False)) \<and>
   connectToWiFi (\<lambda>k. False) (init_pins (power_on False False)) =
     link_down MAX_ATTEMPTS (init_pins (power_on False False))"
proof -
  let ?s = "init_pins (power_on False False)"
  from connectToWiFi_establishes_link [of "\<lambda>k. 2 \<le> k" ?s]
  obtain n where n: "n \<le> MAX_ATTEMPTS" "\<forall>k < n. \<not> 2 \<le> k" "n < MAX_ATTEMPTS \<longrightarrow> 2 \<le> n"
    "connectToWiFi (\<lambda>k. 2 \<le> k) ?s = (if 2 \<le> n + 1 then link_up n ?s else link_down n ?s)"
    by blast
  have "\<not> 2 < n" using n(2) by auto
  then have "n = 2" using n(3) by (simp add: MAX_ATTEMPTS_def)
  then have up: "connectToWiFi (\<lambda>k. 2 \<le> k) ?s = link_up 2 ?s"
    using n(4) by simp
  from connectToWiFi_establishes_link [of "\<lambda>k. False" ?s]
  obtain m where m: "(\<forall>k \<le> MAX_ATTEMPTS + 1. \<not> False) \<longrightarrow> m = MAX_ATTEMPTS \<and> \<not> False"
    "connectToWiFi (\<lambda>k. False) ?s = (if False then link_up m ?s else link_down m ?s)"
    by blast
  then have "connectToWiFi (\<lambda>k. False) ?s = link_down MAX_ATTEMPTS ?s"
    by simp
  with up show ?thesis by simp
qed

subsection \<open>Edges of the link state\<close>

lemma printed_link_wait:
  "m \<noteq> Dot \<Longrightarrow> count_list (link_wait n) (LoopTask, Serial_println m) = 0"
  by (induction n) (simp_all add: link_wait_Suc, simp add: link_wait_def)

lemma connectToWiFi_statics:
  "wasConnected (connectToWiFi st s) = wasConnected s"
  "lastCheckTime (connectToWiFi st s) = lastCheckTime s"
proof -
  from connectToWiFi_cases [of st s]
  obtain n where n: "connectToWiFi st s = (if st (n + 1) then link_up n s else link_down n s)"
    by blast
  show "wasConnected (connectToWiFi st s) = wasConnected s"
    by (simp add: n link_up_def link_down_def)
  show "lastCheckTime (connectToWiFi st s) = lastCheckTime s"
    by (simp add: n link_up_def link_down_def)
qed

lemma connectToWiFi_quiet:
  assumes "m = WiFi_connection_lost \<or> m = WiFi_reconnected"
  shows "printed m (connectToWiFi st s) = printed m s"
proof -
  from connectToWiFi_cases [of st s]
  obtain n where n: "connectToWiFi st s = (if st (n + 1) then link_up n s else link_down n s)"
    by blast
  have "m \<noteq> Dot" using assms by auto
  from printed_link_wait [OF this] assms
  show "printed m (connectToWiFi st s) = printed m s"
    by (auto simp: n printed_def link_up_def link_down_def pulse_def)
qed

lemma check_due:
  assumes "t - lastCheckTime s \<ge> 1000"
  shows "wasConnected (checkWiFiConnection t status st s) = status"
    and "lastCheckTime (checkWiFiConnection t status st s) = t"
    and "printed WiFi_connection_lost (checkWiFiConnection t status st s) =
      printed WiFi_connection_lost s + (if wasConnected s \<and> \<not> status then 1 else 0)"
    and "printed WiFi_reconnected (checkWiFiConnection t status st s) =
      printed WiFi_reconnected s + (if \<not> wasConnected s \<and> status then 1 else 0)"
  using assms
  by (simp_all add: checkWiFiConnection_def Let_def connectToWiFi_quiet connectToWiFi_statics)
     (simp_all add: printed_def prim_defs)

lemma checks_edges:
  assumes "all_due (lastCheckTime s) (map fst cs)"
  shows "printed WiFi_connection_lost (checks cs s) =
      printed WiFi_connection_lost s + lost_edges (wasConnected s) (map (fst \<circ> snd) cs) \<and>
    printed WiFi_reconnected (checks cs s) =
      printed WiFi_reconnected s + reconnected_edges (wasConnected s) (map (fst \<circ> snd) cs)"
  using assms
proof (induction cs arbitrary: s)
  case Nil
  then show ?case by simp
next
  case (Cons c cs)
  obtain t status st where c: "c = (t, status, st)" by (cases c) auto
  from Cons.prems have due: "t - lastCheckTime s \<ge> 1000" and rest: "all_due t (map fst cs)"
    by (simp_all add: c)
  let ?s1 = "checkWiFiConnection t status st s"
  note one = check_due [OF due, of status st]
  from rest one(2) have "all_due (lastCheckTime ?s1) (map fst cs)" by simp
  from Cons.IH [OF this] show ?case
    by (simp add: c one)
qed

lemma lost_edges_up: "lost_edges w (replicate n True) = 0"
  by (induction n arbitrary: w) simp_all

lemma lost_edges_down: "lost_edges w (replicate m False @ replicate n True) = (if w \<and> 0 < m then 1 else 0)"
  by (induction m arbitrary: w) (simp_all add: lost_edges_up)

lemma reconnected_edges_up: "reconnected_edges w (replicate n True) = (if \<not> w \<and> 0 < n then 1 else 0)"
  by (induction n arbitrary: w) simp_all

lemma reconnected_edges_down:
  "reconnected_edges w (replicate m False @ replicate n True) =
     (if (\<not> w \<or> 0 < m) \<and> 0 < n then 1 else 0)"
  by (induction m arbitrary: w) (simp_all add: reconnected_edges_up)

text \<open>
  C8, as stated: a sequence of checks that observe connected, then not connected, then
  connected prints the line of a lost connection once and the line of a reconnection
  once. The first three checks after start-up refute it: \<open>wasConnected\<close> starts as false,
  so the first check, which finds the link connected, prints the line of a reconnection
  too, and the sequence prints it twice.
\<close>

theorem first_check_after_boot_prints_reconnected:
  "printed WiFi_connection_lost
     (checks [(1000, True, \<lambda>k. False), (2000, False, \<lambda>k. False), (20000, True, \<lambda>k. False)]
        (init_pins (power_on False False))) = 1 \<and>
   printed WiFi_reconnected
     (checks [(1000, True, \<lambda>k. False), (2000, False, \<lambda>k. False), (20000, True, \<lambda>k. False)]
        (init_pins (power_on False False))) = 2"
  by code_simp

text \<open>
  C8, amended: for a sequence of checks, each at least a second after the one before,
  that observe connected, then not connected \<open>m \<ge> 1\<close> times, then connected \<open>n \<ge> 1\<close> times:
  the line of a lost connection is printed exactly once; the line of a reconnection is
  printed exactly once when \<open>wasConnected\<close> holds at the start of the sequence (as it does
  after any check that found the link connected), and twice when it does not (as at
  start-up).
\<close>

theorem link_transition_edges:
  assumes "all_due (lastCheckTime s) (map fst cs)"
    and "map (fst \<circ> snd) cs = True # replicate m False @ replicate n True"
    and "0 < m" "0 < n"
  shows "printed WiFi_connection_lost (checks cs s) = printed WiFi_connection_lost s + 1 \<and>
    printed WiFi_reconnected (checks cs s) =
      printed WiFi_reconnected s + (if wasConnected s then 1 else 2)"
  using checks_edges [OF assms(1)] assms(3,4)
  by (simp add: assms(2) lost_edges_down reconnected_edges_down)

theorem link_transition_edges_witness:
  "all_due (lastCheckTime (checks [(1000, True, \<lambda>k. False)] (init_pins (power_on False False))))
     (map fst [(2000, True, \<lambda>k :: nat. False), (3000, False, \<lambda>k. False),
       (30000, True, \<lambda>k. False)]) \<and>
   map (fst \<circ> snd) [(2000 :: 32 word, True, \<lambda>k :: nat. False), (3000, False, \<lambda>k. False),
       (30000, True, \<lambda>k. False)] = True # replicate 1 False @ replicate 1 True \<and>
   printed WiFi_connection_lost
     (checks [(2000, True, \<lambda>k. False), (3000, False, \<lambda>k. False), (30000, True, \<lambda>k. False)]
        (checks [(1000, True, \<lambda>k. False)] (init_pins (power_on False False)))) = 1 \<and>
   printed WiFi_reconnected
     (checks [(2000, True, \<lambda>k. False), (3000, False, \<lambda>k. False), (30000, True, \<lambda>k. False)]
        (checks [(1000, True, \<lambda>k. False)] (init_pins (power_on False False)))) = 2"
proof -
  let ?s = "checks [(1000, True, \<lambda>k. False)] (init_pins (power_on False False))"
  let ?cs = "[(2000 :: 32 word, True, \<lambda>k :: nat. False), (3000, False, \<lambda>k. False),
    (30000, True, \<lambda>k. False)]"
  have due: "all_due (lastCheckTime ?s) (map fst ?cs)"
    by code_simp
  have pat: "map (fst \<circ> snd) ?cs = True # replicate 1 False @ replicate 1 True"
    by simp
  have before: "wasConnected ?s" "printed WiFi_connection_lost ?s = 0"
    "printed WiFi_reconnected ?s = 1"
    by code_simp+
  from link_transition_edges [OF due pat] before
  have "printed WiFi_connection_lost (checks ?cs ?s) = 1 \<and>
      printed WiFi_reconnected (checks ?cs ?s) = 2"
    by simp
  with due pat show ?thesis by blast
qed

subsection \<open>The blue LED is never left on\<close>

lemma exec_keeps_blue:
  "\<not> writes_blue a \<Longrightarrow> blue_led (snd (exec who a r s)) = blue_led s"
  by (cases a) (auto simp: prim_defs split: pin.splits)

lemma worker_no_blue: "\<forall>a \<in> set (sendGetRequestTask index b c). \<not> writes_blue a"
  by (simp add: worker_defs)

lemma blue_off_step: "blue_off s \<Longrightarrow> blue_off (step_task i s)"
proof -
  assume inv: "blue_off s"
  show ?thesis
  proof (cases "prog (tasks s i)")
    case Nil
    then show ?thesis using inv by (simp add: step_task_def)
  next
    case (Cons a as)
    then have a: "\<not> writes_blue a" and as: "\<forall>x \<in> set as. \<not> writes_blue x"
      using inv by (auto simp: blue_off_def dest: spec [of _ i])
    show ?thesis
    proof (cases "enabled a s")
      case True
      then show ?thesis
        using Cons a as inv exec_keeps_blue [OF a, of "HTTPTask i" "reg (tasks s i)" s]
          exec_keeps_tasks [of "HTTPTask i" a "reg (tasks s i)" s]
        by (auto simp: step_task_def blue_off_def split: prod.splits)
    next
      case False
      then show ?thesis using Cons inv by (simp add: step_task_def)
    qed
  qed
qed

lemma blue_off_sched: "blue_off s \<Longrightarrow> blue_off (run_sched sched s)"
  by (induction sched arbitrary: s) (simp_all add: run_sched_Nil run_sched_Cons blue_off_step)

lemma blue_off_logged: "blue_off (logged who a s) = blue_off s"
  by (simp add: blue_off_def logged_def)

lemma blue_off_create:
  "blue_off s \<Longrightarrow> \<forall>a \<in> set p. \<not> writes_blue a \<Longrightarrow> blue_off (xTaskCreate p s)"
  by (simp add: blue_off_def xTaskCreate_def)

lemma blue_off_launch:
  "blue_off s \<Longrightarrow> blue_off (snd (launch net n i urls sched s))"
proof (induction urls arbitrary: i sched s)
  case Nil
  then show ?case by simp
next
  case (Cons url urls)
  have "blue_off (xTaskCreate (worker_prog net i) s)"
    using Cons.prems worker_no_blue by (intro blue_off_create) (simp_all add: worker_prog_def)
  then have "blue_off (run_sched (next_moves sched)
      (println LoopTask (Launched (i + 1) n url) (xTaskCreate (worker_prog net i) s)))"
    by (intro blue_off_sched) (simp add: println_def blue_off_logged)
  from Cons.IH [OF this] show ?case by simp
qed

lemma blue_off_wait:
  "blue_off s \<Longrightarrow> wait_tasks sched s = Some s' \<Longrightarrow> blue_off s'"
proof (induction sched arbitrary: s)
  case Nil
  then show ?case by (auto simp: blue_off_logged split: if_splits)
next
  case (Cons c cs)
  show ?case
  proof (cases "isComplete (activeRequests s)")
    case True
    then show ?thesis using Cons.prems by (auto simp: blue_off_logged)
  next
    case False
    have "blue_off (run_sched c (delay LoopTask 50 (logged LoopTask ReadActive s)))"
      using Cons.prems(1) by (intro blue_off_sched) (simp add: delay_def blue_off_logged)
    from Cons.IH [OF this] show ?thesis
      using False Cons.prems(2) by simp
  qed
qed

lemma blue_off_summary: "blue_off s \<Longrightarrow> blue_off (cycle_summary s)"
  by (simp add: cycle_summary_def println_def blue_off_logged)

lemma blue_off_poll:
  assumes "blue_off s" "pollEndpoints status urls net sched s = Some s'"
  shows "blue_off s'"
proof (cases status)
  case False
  then show ?thesis
    using assms
    by (auto simp: pollEndpoints_def cannot_poll_def led_on_error_def blue_off_def prim_defs
        split: if_splits)
next
  case True
  define s1 where
    "s1 = snd (the (run LoopTask
       (Serial_println Starting_cycle # reset_counters (int (length urls))) (0, s)))"
  have r: "run LoopTask (Serial_println Starting_cycle # reset_counters (int (length urls)))
      (0, s) = Some (0, s1)"
    by (simp add: s1_def reset_counters_def)
  have b1: "blue_off s1"
    using assms(1) by (simp add: s1_def reset_counters_def blue_off_def prim_defs)
  obtain sched' s2 where l: "launch net (length urls) 0 urls sched s1 = (sched', s2)"
    by (cases "launch net (length urls) 0 urls sched s1") auto
  have b2: "blue_off s2"
    using blue_off_launch [OF b1, of net "length urls" 0 urls sched] l by simp
  have "pollEndpoints status urls net sched s = map_option cycle_summary (wait_tasks sched' s2)"
    unfolding pollEndpoints_def r option.case prod.case l using True by simp
  with assms(2) obtain s3 where w: "wait_tasks sched' s2 = Some s3"
    and s': "s' = cycle_summary s3"
    by auto
  from blue_off_wait [OF b2 w] show ?thesis
    by (simp add: s' blue_off_summary)
qed

lemma blue_off_connect: "blue_off s \<Longrightarrow> blue_off (connectToWiFi st s)"
proof -
  assume inv: "blue_off s"
  from connectToWiFi_cases [of st s]
  obtain n where n: "connectToWiFi st s = (if st (n + 1) then link_up n s else link_down n s)"
    by blast
  show ?thesis
    using inv by (simp add: n blue_off_def link_up_def link_down_def LOW_def)
qed

lemma blue_off_check: "blue_off s \<Longrightarrow> blue_off (checkWiFiConnection t status st s)"
proof -
  assume inv: "blue_off s"
  have a: "blue_off (s\<lparr>lastCheckTime := t\<rparr>)"
    using inv by (simp add: blue_off_def)
  have b: "blue_off (digitalWrite LoopTask RED_LED_PIN HIGH
      ((println LoopTask WiFi_connection_lost (s\<lparr>lastCheckTime := t\<rparr>))\<lparr>wasConnected := False\<rparr>))"
    using inv by (simp add: blue_off_def prim_defs)
  have c: "blue_off (digitalWrite LoopTask RED_LED_PIN LOW
      (println LoopTask WiFi_reconnected (s\<lparr>lastCheckTime := t, wasConnected := True\<rparr>)))"
    using inv by (simp add: blue_off_def prim_defs)
  show ?thesis
    using inv a b c by (simp add: checkWiFiConnection_def Let_def blue_off_connect)
qed

lemma reachable_blue_off: "reachable s \<Longrightarrow> blue_off s"
proof (induction rule: reachable.induct)
  case (start b r)
  then show ?case by (simp add: blue_off_def init_pins_def power_on_def prim_defs)
next
  case (connect s st)
  then show ?case by (simp add: blue_off_connect)
next
  case (check s t status st)
  then show ?case by (simp add: blue_off_check)
next
  case (poll s status urls net sched s')
  then show ?case using blue_off_poll by blast
next
  case (moves s i)
  then show ?case by (simp add: blue_off_step)
next
  case (timer s t)
  then show ?case by (simp add: blue_off_def)
next
  case (sleep s ms)
  then show ?case by (simp add: delay_def blue_off_logged)
next
  case (prints s m)
  then show ?case by (simp add: println_def blue_off_logged)
qed

text \<open>The states in which \<^verbatim>\<open>setup\<close> and a round of \<^verbatim>\<open>loop\<close> end are among them.\<close>

lemma setup_reachable:
  assumes "arduino_setup b r st status status' urls net sched now = Some s"
  shows "reachable s"
proof -
  let ?s0 = "connectToWiFi st
    (delay LoopTask 100 (println LoopTask Banner (init_pins (power_on b r))))"
  have r0: "reachable ?s0"
    by (intro reachable.connect reachable.sleep reachable.prints reachable.start)
  show ?thesis
  proof (cases status)
    case True
    with assms obtain s' where p: "pollEndpoints status' urls net sched ?s0 = Some s'"
      and s: "s = s'\<lparr>lastPollTime := now\<rparr>"
      by (auto simp: arduino_setup_def)
    from reachable.poll [OF r0 p] show ?thesis
      unfolding s by (rule reachable.timer)
  next
    case False
    with assms have "s = ?s0" by (simp add: arduino_setup_def)
    then show ?thesis using r0 by simp
  qed
qed

lemma loop_reachable:
  assumes "reachable s" "loop t status st currentTime status' urls net sched s = Some s'"
  shows "reachable s'"
proof -
  let ?s1 = "checkWiFiConnection t status st s"
  have r1: "reachable ?s1"
    using assms(1) by (rule reachable.check)
  show ?thesis
  proof (cases "currentTime - lastPollTime ?s1 \<ge> POLL_INTERVAL_MS")
    case True
    with assms(2) obtain s2 where
      p: "pollEndpoints status' urls net sched (?s1\<lparr>lastPollTime := currentTime\<rparr>) = Some s2"
      and s': "s' = delay LoopTask 100 s2"
      by (auto simp: loop_def Let_def)
    have "reachable (?s1\<lparr>lastPollTime := currentTime\<rparr>)"
      using r1 by (rule reachable.timer)
    from reachable.poll [OF this p] show ?thesis
      unfolding s' by (rule reachable.sleep)
  next
    case False
    with assms(2) have "s' = delay LoopTask 100 ?s1"
      by (auto simp: loop_def Let_def)
    then show ?thesis using r1 by (simp add: reachable.sleep)
  qed
qed

lemma blink_ends_low: "0 < n \<or> \<not> blue_led s \<Longrightarrow> \<not> blue_led (blink n d s)"
proof (induction n arbitrary: s)
  case 0
  then show ?case by simp
next
  case (Suc n)
  have "\<not> blue_led (delay LoopTask d (digitalWrite LoopTask BLUE_LED_PIN LOW
      (delay LoopTask d (digitalWrite LoopTask BLUE_LED_PIN HIGH s))))"
    by (simp add: prim_defs)
  then show ?case
    using Suc.IH by simp
qed

text \<open>
  C10. \<^verbatim>\<open>blinkBlueLED\<close> is a total function. With \<open>n > 0\<close> it ends with the blue LED off from
  any state; with \<open>n \<le> 0\<close> it writes nothing, and the blue LED is off because it is off in
  every state the program reaches: after the first lines of \<^verbatim>\<open>setup\<close>, after every
  operation of the file and after every action of a task.
\<close>

theorem blue_led_never_left_on:
  "(reachable s \<longrightarrow> \<not> blue_led s \<and> \<not> blue_led (blinkBlueLED n d s)) \<and>
   (0 < n \<longrightarrow> \<not> blue_led (blinkBlueLED n d s))"
  using reachable_blue_off [of s] blink_ends_low [of "nat n" s "word_of_int d"]
  by (auto simp: blinkBlueLED_def blue_off_def)

theorem blue_led_never_left_on_witness:
  "reachable (init_pins (power_on True True)) \<and>
   \<not> blue_led (init_pins (power_on True True)) \<and>
   \<not> blue_led (blinkBlueLED 0 200 (init_pins (power_on True True))) \<and>
   \<not> blue_led (blinkBlueLED 3 200 (power_on True False))"
proof -
  have r: "reachable (init_pins (power_on True True))"
    by (rule reachable.start)
  show ?thesis
    using r blue_led_never_left_on [of "init_pins (power_on True True)" 0 200]
      blue_led_never_left_on [of "power_on True False" 3 200]
    by simp
qed

end
